theory Spec2Isabelle
  imports Complex_Main "HOL-Library.Sublist" "HOL-Library.Multiset" "HOL-Library.Log_Nat"
begin

section \<open>Data model of the dashboard (app.py)\<close>

text \<open>
  One row of the registration table. Only the columns that the filter, the aggregates and
  the insights of app.py read are kept; the field names are the column names of the CSV.
  A cell of a text column holds a string or is missing (a blank field of the CSV, which
  pandas reads as NaN): \<open>None\<close> is the missing cell. The year and the two numeric
  columns hold integers.
\<close>

record ev_record =
  Model_Year :: int
  State :: "string option"
  Make :: "string option"
  Model :: "string option"
  Electric_Vehicle_Type :: "string option"
  CAFV_Eligibility :: "string option"
  Electric_Range :: int
  Base_MSRP :: int

text \<open>A data frame is the list of its rows, in index order; a column is a list of cells.\<close>

type_synonym dataframe = "ev_record list"

text \<open>
  The sidebar widgets of lines 74-103: the slider returns a pair of years, each
  multiselect returns the list of the chosen options. The options are the cells of the
  column, so a chosen option can be the missing cell.
\<close>

record filter_spec =
  year_range :: "int \<times> int"
  selected_states :: "string option list"
  selected_makes :: "string option list"
  selected_ev_types :: "string option list"

section \<open>The filter (lines 106-111)\<close>

text \<open>\<open>Series.between(left, right)\<close>: a boolean column, both ends inclusive.\<close>

definition between :: "int list \<Rightarrow> int \<Rightarrow> int \<Rightarrow> bool list" where
  "between col left right = map (\<lambda>x. left \<le> x \<and> x \<le> right) col"

text \<open>
  \<open>Series.isin(values)\<close>: a boolean column, true where the cell is one of the values
  (a missing cell is one of them when the missing cell is among the values).
\<close>

definition isin :: "'a list \<Rightarrow> 'a list \<Rightarrow> bool list" where
  "isin col vals = map (\<lambda>x. x \<in> set vals) col"

text \<open>The operator \<open>&\<close> on two boolean columns of one frame: row by row.\<close>

definition mask_and :: "bool list \<Rightarrow> bool list \<Rightarrow> bool list" where
  "mask_and a b = map2 (\<and>) a b"

text \<open>\<open>df[mask]\<close>: the rows whose mask cell is true, in the order of the frame.\<close>

definition getitem_mask :: "'a list \<Rightarrow> bool list \<Rightarrow> 'a list" where
  "getitem_mask df bs = map fst (filter snd (zip df bs))"

definition filtered_df :: "dataframe \<Rightarrow> filter_spec \<Rightarrow> dataframe" where
  "filtered_df df sp =
     getitem_mask df
       (mask_and
         (mask_and
           (mask_and
             (between (map Model_Year df) (fst (year_range sp)) (snd (year_range sp)))
             (isin (map State df) (selected_states sp)))
           (isin (map Make df) (selected_makes sp)))
         (isin (map Electric_Vehicle_Type df) (selected_ev_types sp)))"

text \<open>
  The membership test of the data model, written from the specification: a record passes
  a filter specification iff the four predicates hold together.
\<close>

definition spec_passes :: "filter_spec \<Rightarrow> ev_record \<Rightarrow> bool" where
  "spec_passes sp r \<longleftrightarrow>
     fst (year_range sp) \<le> Model_Year r \<and> Model_Year r \<le> snd (year_range sp) \<and>
     State r \<in> set (selected_states sp) \<and>
     Make r \<in> set (selected_makes sp) \<and>
     Electric_Vehicle_Type r \<in> set (selected_ev_types sp)"

section \<open>Float columns\<close>

text \<open>
  A cell of a float64 column: NaN (also the marker pandas uses for a missing cell), an
  infinity, or a finite value, held as the rational it stands for. Zero carries no sign
  (the only zeros the script divides by are counts).
\<close>

datatype float64 = NaN | PosInf | NegInf | Finite rat

text \<open>The exponent of a positive number: the \<open>e\<close> with \<open>2^e \<le> x < 2^(e+1)\<close>.\<close>

definition ilog2 :: "rat \<Rightarrow> int" where
  "ilog2 x = (if 1 \<le> x then bitlen \<lfloor>x\<rfloor> - 1 else - bitlen (\<lceil>1 / x\<rceil> - 1))"

text \<open>Rounding to the nearest integer, a tie to the even one.\<close>

definition rne :: "rat \<Rightarrow> int" where
  "rne r = (let f = \<lfloor>r\<rfloor>; d = r - of_int f
            in if d < 1 / 2 then f
               else if 1 / 2 < d then f + 1
               else if even f then f else f + 1)"

text \<open>
  The float64 nearest to a number (IEEE 754 binary64, round to nearest, ties to even):
  53 significant bits, the spacing of the subnormal numbers below \<open>2^-1022\<close>, and an
  infinity once the rounded value reaches \<open>2^1024\<close>.
\<close>

definition round64 :: "rat \<Rightarrow> float64" where
  "round64 x =
     (if x = 0 then Finite 0
      else let q = power_int 2 (max (ilog2 \<bar>x\<bar>) (- 1022) - 52);
               y = of_int (rne (\<bar>x\<bar> / q)) * q
           in if power_int 2 1024 \<le> y then (if 0 < x then PosInf else NegInf)
              else Finite (if 0 < x then y else - y))"

text \<open>The conversion of an integer (an int64 cell, a count, a length) to float64.\<close>

definition to_float :: "int \<Rightarrow> float64" where
  "to_float n = round64 (of_int n)"

text \<open>The four operations: the exact result, rounded.\<close>

fun fadd :: "float64 \<Rightarrow> float64 \<Rightarrow> float64" where
  "fadd NaN _ = NaN"
| "fadd _ NaN = NaN"
| "fadd (Finite a) (Finite b) = round64 (a + b)"
| "fadd PosInf NegInf = NaN"
| "fadd NegInf PosInf = NaN"
| "fadd PosInf _ = PosInf"
| "fadd NegInf _ = NegInf"
| "fadd (Finite a) PosInf = PosInf"
| "fadd (Finite a) NegInf = NegInf"

fun fsub :: "float64 \<Rightarrow> float64 \<Rightarrow> float64" where
  "fsub NaN _ = NaN"
| "fsub _ NaN = NaN"
| "fsub (Finite a) (Finite b) = round64 (a - b)"
| "fsub PosInf PosInf = NaN"
| "fsub NegInf NegInf = NaN"
| "fsub PosInf _ = PosInf"
| "fsub NegInf _ = NegInf"
| "fsub (Finite a) PosInf = NegInf"
| "fsub (Finite a) NegInf = PosInf"

fun fmul :: "float64 \<Rightarrow> float64 \<Rightarrow> float64" where
  "fmul NaN _ = NaN"
| "fmul _ NaN = NaN"
| "fmul (Finite a) (Finite b) = round64 (a * b)"
| "fmul PosInf (Finite b) = (if b = 0 then NaN else if 0 < b then PosInf else NegInf)"
| "fmul NegInf (Finite b) = (if b = 0 then NaN else if 0 < b then NegInf else PosInf)"
| "fmul (Finite a) PosInf = (if a = 0 then NaN else if 0 < a then PosInf else NegInf)"
| "fmul (Finite a) NegInf = (if a = 0 then NaN else if 0 < a then NegInf else PosInf)"
| "fmul PosInf PosInf = PosInf"
| "fmul NegInf NegInf = PosInf"
| "fmul PosInf NegInf = NegInf"
| "fmul NegInf PosInf = NegInf"

fun fdiv :: "float64 \<Rightarrow> float64 \<Rightarrow> float64" where
  "fdiv (Finite a) (Finite b) =
     (if b \<noteq> 0 then round64 (a / b)
      else if a = 0 then NaN
      else if 0 < a then PosInf else NegInf)"
| "fdiv (Finite a) PosInf = Finite 0"
| "fdiv (Finite a) NegInf = Finite 0"
| "fdiv PosInf (Finite b) = (if 0 \<le> b then PosInf else NegInf)"
| "fdiv NegInf (Finite b) = (if 0 \<le> b then NegInf else PosInf)"
| "fdiv _ _ = NaN"

text \<open>\<open>pd.isna\<close> on a float.\<close>

definition isna :: "float64 \<Rightarrow> bool" where
  "isna x \<longleftrightarrow> x = NaN"

text \<open>
  The float64 sum of an integer column is computed by the library behind pandas, and the
  order in which it adds the cells is not fixed by the script. It is a parameter of the
  model. Adding from left to right is one such sum.
\<close>

type_synonym float_sum = "int list \<Rightarrow> float64"

definition sum_left :: float_sum where
  "sum_left col = foldl (\<lambda>acc x. fadd acc (to_float x)) (Finite 0) col"

text \<open>
  \<open>Series.mean()\<close> of an integer column: NaN for a column with no row, otherwise the
  float64 sum divided by the number of rows.
\<close>

definition mean :: "float_sum \<Rightarrow> int list \<Rightarrow> float64" where
  "mean fsum col =
     (if col = [] then NaN
      else fdiv (fsum col) (to_float (int (length col))))"

section \<open>Counting the values of a column\<close>

text \<open>
  The hash-table pass behind \<open>value_counts\<close> and \<open>groupby\<close>: one entry per distinct
  value, in the order in which the values are first seen, each with its number of rows.
\<close>

fun bump :: "'a \<Rightarrow> ('a \<times> nat) list \<Rightarrow> ('a \<times> nat) list" where
  "bump k [] = [(k, 1)]"
| "bump k ((k', c) # rest) =
     (if k = k' then (k', Suc c) # rest else (k', c) # bump k rest)"

definition value_count :: "'a list \<Rightarrow> ('a \<times> nat) list" where
  "value_count col = foldl (\<lambda>acc k. bump k acc) [] col"

text \<open>The cells of a column that are not missing (\<open>dropna\<close>).\<close>

definition dropna :: "'a option list \<Rightarrow> 'a list" where
  "dropna col = map the (filter (\<lambda>c. c \<noteq> None) col)"

text \<open>
  \<open>sort_values(ascending=False)\<close> on the counts. pandas reverses the entries, sorts them
  ascending and reverses the result; the sort is taken here as one that leaves entries
  with equal counts in place (insertion sort).
\<close>

definition sort_values_desc :: "('a \<times> nat) list \<Rightarrow> ('a \<times> nat) list" where
  "sort_values_desc s = rev (sort_key snd (rev s))"

text \<open>
  \<open>Series.value_counts()\<close> with its defaults \<open>sort=True\<close> and \<open>dropna=True\<close>: the
  missing cells are not counted.
\<close>

definition value_counts :: "'a option list \<Rightarrow> ('a \<times> nat) list" where
  "value_counts col = sort_values_desc (value_count (dropna col))"

text \<open>\<open>.head(n)\<close>: the first \<open>n\<close> entries.\<close>

definition head :: "nat \<Rightarrow> 'a list \<Rightarrow> 'a list" where
  "head n s = take n s"

text \<open>\<open>groupby(key).size()\<close>: one entry per distinct key, the keys sorted ascending.\<close>

definition groupby_size :: "'a::linorder list \<Rightarrow> ('a \<times> nat) list" where
  "groupby_size col = sort_key fst (value_count col)"

text \<open>\<open>Series.nunique()\<close>: the number of distinct cells, the missing cell left out.\<close>

definition nunique :: "'a option list \<Rightarrow> nat" where
  "nunique col = length (remdups (dropna col))"

section \<open>The aggregates of the tabs\<close>

text \<open>Line 170, and line 192.\<close>

definition make_counts :: "dataframe \<Rightarrow> (string \<times> nat) list" where
  "make_counts fd = head 15 (value_counts (map Make fd))"

definition top_10_makes :: "dataframe \<Rightarrow> (string \<times> nat) list" where
  "top_10_makes fd = head 10 (make_counts fd)"

text \<open>Line 181.\<close>

definition ev_type_counts :: "dataframe \<Rightarrow> (string \<times> nat) list" where
  "ev_type_counts fd = value_counts (map Electric_Vehicle_Type fd)"

text \<open>Lines 204-205: the table with the columns Year and Count.\<close>

definition yearly_counts :: "dataframe \<Rightarrow> (int \<times> nat) list" where
  "yearly_counts fd = groupby_size (map Model_Year fd)"

text \<open>Lines 247-248.\<close>

definition state_counts :: "dataframe \<Rightarrow> (string \<times> nat) list" where
  "state_counts fd = value_counts (map State fd)"

text \<open>Line 395.\<close>

definition cafv_counts :: "dataframe \<Rightarrow> (string \<times> nat) list" where
  "cafv_counts fd = value_counts (map CAFV_Eligibility fd)"

subsection \<open>Growth rate (lines 218-226)\<close>

text \<open>\<open>Series.shift(1)\<close>: every cell moves down one row, the first cell is missing.\<close>

definition shift1 :: "float64 list \<Rightarrow> float64 list" where
  "shift1 col = (if col = [] then [] else NaN # butlast col)"

text \<open>\<open>Series.pct_change()\<close> of a column of counts: \<open>data / data.shift(1) - 1\<close>.\<close>

definition pct_change :: "nat list \<Rightarrow> float64 list" where
  "pct_change col =
     (let data = map (\<lambda>c. to_float (int c)) col
      in map2 (\<lambda>a b. fsub (fdiv a b) (Finite 1)) data (shift1 data))"

text \<open>Line 219: the column \<open>Growth_Rate\<close> of the yearly table.\<close>

definition Growth_Rate :: "(int \<times> nat) list \<Rightarrow> float64 list" where
  "Growth_Rate yc = map (\<lambda>g. fmul g (Finite 100)) (pct_change (map snd yc))"

text \<open>
  Lines 218-226: the bars of the growth chart, a year and its rate, from the rows after
  the first (\<open>yearly_counts[1:]\<close>); no chart at all for a table of one row or none.
\<close>

definition fig_growth :: "(int \<times> nat) list \<Rightarrow> (int \<times> float64) list option" where
  "fig_growth yc =
     (if 1 < length yc then Some (tl (zip (map fst yc) (Growth_Rate yc))) else None)"

subsection \<open>Average range (lines 139-143)\<close>

text \<open>The comparison \<open>column > 0\<close>: a boolean column.\<close>

definition gt0 :: "int list \<Rightarrow> bool list" where
  "gt0 col = map (\<lambda>x. 0 < x) col"

definition avg_range :: "float_sum \<Rightarrow> dataframe \<Rightarrow> float64" where
  "avg_range fsum fd =
     mean fsum (map Electric_Range (getitem_mask fd (gt0 (map Electric_Range fd))))"

text \<open>
  The value shown by the metric: the text N/A, or the average printed without decimals
  (the printing is not modelled).
\<close>

datatype metric_value = N_A | Shown float64

definition avg_range_value :: "float_sum \<Rightarrow> dataframe \<Rightarrow> metric_value" where
  "avg_range_value fsum fd =
     (if \<not> isna (avg_range fsum fd) then Shown (avg_range fsum fd) else N_A)"

section \<open>Insights (lines 418-450) and the page\<close>

datatype py_error = IndexError

text \<open>\<open>.index[0]\<close> together with \<open>.iloc[0]\<close>: the first entry, IndexError when there is none.\<close>

definition index0 :: "'a list \<Rightarrow> py_error + 'a" where
  "index0 s = (case s of [] \<Rightarrow> Inl IndexError | x # _ \<Rightarrow> Inr x)"

text \<open>\<open>(count / len(filtered_df)) * 100\<close>.\<close>

definition pct :: "nat \<Rightarrow> nat \<Rightarrow> float64" where
  "pct c n = fmul (fdiv (to_float (int c)) (to_float (int n))) (Finite 100)"

record insight_set =
  market_leader :: "string \<times> nat \<times> float64"
  average_range :: "float64 option"
  vehicle_preference :: "string \<times> float64"
  geographic_leader :: "string \<times> nat \<times> float64"

definition insights :: "float_sum \<Rightarrow> dataframe \<Rightarrow> py_error + insight_set" where
  "insights fsum fd =
     (case index0 (value_counts (map Make fd)) of
        Inl e \<Rightarrow> Inl e
      | Inr (top_make, top_make_count) \<Rightarrow>
     (case index0 (value_counts (map Electric_Vehicle_Type fd)) of
        Inl e \<Rightarrow> Inl e
      | Inr (most_common_type, type_count) \<Rightarrow>
     (case index0 (value_counts (map State fd)) of
        Inl e \<Rightarrow> Inl e
      | Inr (top_state, state_count) \<Rightarrow>
          Inr \<lparr>market_leader = (top_make, top_make_count, pct top_make_count (length fd)),
               average_range =
                 (if \<not> isna (avg_range fsum fd) then Some (avg_range fsum fd) else None),
               vehicle_preference = (most_common_type, pct type_count (length fd)),
               geographic_leader = (top_state, state_count, pct state_count (length fd))\<rparr>)))"

record key_metrics =
  total_vehicles :: nat
  unique_makes :: nat
  unique_models :: nat
  avg_range_miles :: metric_value
  states_covered :: nat

record dashboard =
  metrics :: key_metrics
  market_share :: "(string \<times> nat) list"
  ev_type_distribution :: "(string \<times> nat) list"
  market_concentration :: "(string \<times> nat) list"
  registration_trend :: "(int \<times> nat) list"
  growth_chart :: "(int \<times> float64) list option"
  state_distribution :: "(string \<times> nat) list"
  cafv_distribution :: "(string \<times> nat) list"
  key_insights :: insight_set

text \<open>What a run shows: the dashboard, or the warning of line 453.\<close>

datatype page = No_Data_Warning | Dashboard dashboard

text \<open>Lines 106-453, for a loaded data frame.\<close>

definition app :: "float_sum \<Rightarrow> dataframe \<Rightarrow> filter_spec \<Rightarrow> py_error + page" where
  "app fsum df sp =
     (let fd = filtered_df df sp in
      if 0 < length fd then
        (case insights fsum fd of
           Inl e \<Rightarrow> Inl e
         | Inr ins \<Rightarrow>
             Inr (Dashboard
               \<lparr>metrics = \<lparr>total_vehicles = length fd,
                            unique_makes = nunique (map Make fd),
                            unique_models = nunique (map Model fd),
                            avg_range_miles = avg_range_value fsum fd,
                            states_covered = nunique (map State fd)\<rparr>,
                market_share = make_counts fd,
                ev_type_distribution = ev_type_counts fd,
                market_concentration = top_10_makes fd,
                registration_trend = yearly_counts fd,
                growth_chart = fig_growth (yearly_counts fd),
                state_distribution = state_counts fd,
                cafv_distribution = cafv_counts fd,
                key_insights = ins\<rparr>))
      else Inr No_Data_Warning)"

text \<open>The insights a page carries: none on the warning page.\<close>

fun page_insights :: "page \<Rightarrow> insight_set option" where
  "page_insights No_Data_Warning = None"
| "page_insights (Dashboard d) = Some (key_insights d)"

section \<open>What the specification asks of a table of counts\<close>

text \<open>
  The distinct values of a column in the order of their first rows, and the row at which
  a value is first seen.
\<close>

definition first_appearance :: "'a list \<Rightarrow> 'a list" where
  "first_appearance col = rev (remdups (rev col))"

definition first_index :: "'a list \<Rightarrow> 'a \<Rightarrow> nat" where
  "first_index col k = length (takeWhile (\<lambda>y. y \<noteq> k) col)"

text \<open>
  Written from the specification: a table of value counts has one entry for each distinct
  value of the column, the entry holds the number of rows with that value, and the
  entries are ordered by count descending, entries of equal count by first appearance.
\<close>

definition is_value_counts :: "'a list \<Rightarrow> ('a \<times> nat) list \<Rightarrow> bool" where
  "is_value_counts col vc \<longleftrightarrow>
     distinct (map fst vc) \<and>
     set vc = (\<lambda>k. (k, count_list col k)) ` set col \<and>
     sorted_wrt (\<lambda>a b. snd b < snd a \<or>
                  (snd a = snd b \<and> first_index col (fst a) < first_index col (fst b))) vc"

text \<open>
  The same entries ordered by key ascending instead: what a grouped table of sizes is.
\<close>

definition is_groupby_size :: "'a::linorder list \<Rightarrow> ('a \<times> nat) list \<Rightarrow> bool" where
  "is_groupby_size col t \<longleftrightarrow>
     set t = (\<lambda>k. (k, count_list col k)) ` set col \<and> sorted_wrt (<) (map fst t)"

section \<open>Sample data\<close>

text \<open>The five registrations and the selection of the end-to-end scenario.\<close>

definition row1 :: ev_record where
  "row1 = \<lparr>Model_Year = 2022, State = Some ''WA'', Make = Some ''TESLA'', Model = Some ''M3'',
            Electric_Vehicle_Type = Some ''BEV'', CAFV_Eligibility = Some ''Y'',
            Electric_Range = 250, Base_MSRP = 0\<rparr>"

definition row2 :: ev_record where
  "row2 = \<lparr>Model_Year = 2022, State = Some ''WA'', Make = Some ''TESLA'', Model = Some ''MY'',
            Electric_Vehicle_Type = Some ''BEV'', CAFV_Eligibility = Some ''Y'',
            Electric_Range = 300, Base_MSRP = 0\<rparr>"

definition row3 :: ev_record where
  "row3 = \<lparr>Model_Year = 2021, State = Some ''CA'', Make = Some ''NISSAN'', Model = Some ''LEAF'',
            Electric_Vehicle_Type = Some ''BEV'', CAFV_Eligibility = Some ''U'',
            Electric_Range = 0, Base_MSRP = 0\<rparr>"

definition row4 :: ev_record where
  "row4 = \<lparr>Model_Year = 2023, State = Some ''WA'', Make = Some ''FORD'', Model = Some ''ESCAPE'',
            Electric_Vehicle_Type = Some ''PHEV'', CAFV_Eligibility = Some ''N'',
            Electric_Range = 30, Base_MSRP = 0\<rparr>"

definition row5 :: ev_record where
  "row5 = \<lparr>Model_Year = 2021, State = Some ''CA'', Make = Some ''TESLA'', Model = Some ''MS'',
            Electric_Vehicle_Type = Some ''BEV'', CAFV_Eligibility = Some ''Y'',
            Electric_Range = 270, Base_MSRP = 0\<rparr>"

definition sample_df :: dataframe where
  "sample_df = [row1, row2, row3, row4, row5]"

definition sample_spec :: filter_spec where
  "sample_spec = \<lparr>year_range = (2021, 2022), selected_states = [Some ''WA'', Some ''CA''],
                   selected_makes = [Some ''TESLA'', Some ''NISSAN'', Some ''FORD''],
                   selected_ev_types = [Some ''BEV'', Some ''PHEV'']\<rparr>"

text \<open>A view whose ranges are 0, 100, 0 and 200.\<close>

definition range_rows :: dataframe where
  "range_rows = [row3, row1\<lparr>Electric_Range := 100\<rparr>, row3, row2\<lparr>Electric_Range := 200\<rparr>]"

lemmas sample_defs =
  sample_df_def sample_spec_def row1_def row2_def row3_def row4_def row5_def

section \<open>Properties of the filter\<close>

lemma getitem_mask_map:
  "getitem_mask df (map p df) = filter p df"
  by (induction df) (simp_all add: getitem_mask_def)

lemma mask_and_map:
  "mask_and (map p xs) (map q xs) = map (\<lambda>x. p x \<and> q x) xs"
  by (induction xs) (simp_all add: mask_and_def)

lemma filtered_df_filter:
  "filtered_df df sp = filter (spec_passes sp) df"
proof -
  have "filtered_df df sp = getitem_mask df (map (spec_passes sp) df)"
    unfolding filtered_df_def between_def isin_def
    by (simp add: mask_and_map comp_def spec_passes_def [abs_def])
  then show ?thesis
    by (simp add: getitem_mask_map)
qed

lemma sample_filtered: "filtered_df sample_df sample_spec = [row1, row2, row3, row5]"
  by (simp add: filtered_df_filter spec_passes_def sample_defs)

text \<open>
  C1. The filtered view is exactly the rows of the data frame, in the order of the frame,
  whose model year lies in the closed year range and whose state, make and EV type are
  among the selected ones; with an empty selection of states, makes or EV types no row
  passes.
\<close>

theorem filtered_df_exact:
  "filtered_df df sp = filter (spec_passes sp) df
   \<and> subseq (filtered_df df sp) df
   \<and> (selected_states sp = [] \<or> selected_makes sp = [] \<or> selected_ev_types sp = []
        \<longrightarrow> filtered_df df sp = [])"
proof -
  have empty: "filter (spec_passes sp) df = []"
    if "selected_states sp = [] \<or> selected_makes sp = [] \<or> selected_ev_types sp = []"
    using that by (auto simp: spec_passes_def filter_empty_conv)
  show ?thesis
    using empty by (simp add: filtered_df_filter)
qed

theorem filtered_df_exact_witness:
  "selected_makes (sample_spec\<lparr>selected_makes := []\<rparr>) = []
   \<and> filtered_df sample_df (sample_spec\<lparr>selected_makes := []\<rparr>) = []
   \<and> subseq (filtered_df sample_df (sample_spec\<lparr>selected_makes := []\<rparr>)) sample_df"
proof -
  have none: "selected_makes (sample_spec\<lparr>selected_makes := []\<rparr>) = []"
    by simp
  from filtered_df_exact [of sample_df "sample_spec\<lparr>selected_makes := []\<rparr>"] none
  have "filtered_df sample_df (sample_spec\<lparr>selected_makes := []\<rparr>) = []"
    by blast
  with none show ?thesis
    by simp
qed

text \<open>
  C6. A year range whose lower end is above its upper end lets no row pass: the view is
  empty, the bounds are not swapped and nothing is raised.
\<close>

theorem year_range_reversed_empty:
  "snd (year_range sp) < fst (year_range sp) \<Longrightarrow> filtered_df df sp = []"
  by (auto simp: filtered_df_filter spec_passes_def filter_empty_conv)

theorem year_range_reversed_empty_witness:
  "snd (year_range (sample_spec\<lparr>year_range := (2022, 2021)\<rparr>))
     < fst (year_range (sample_spec\<lparr>year_range := (2022, 2021)\<rparr>))
   \<and> filtered_df sample_df (sample_spec\<lparr>year_range := (2022, 2021)\<rparr>) = []"
  using year_range_reversed_empty [of "sample_spec\<lparr>year_range := (2022, 2021)\<rparr>" sample_df]
  by simp

text \<open>
  C8. With the year range unchanged, a selection whose states, makes and EV types each
  contain those of another selection keeps every row of the other view (and in the same
  order); widening one of the three sets is the case where the other two are equal.
\<close>

theorem filter_widening:
  assumes "year_range sp' = year_range sp"
    and "set (selected_states sp) \<subseteq> set (selected_states sp')"
    and "set (selected_makes sp) \<subseteq> set (selected_makes sp')"
    and "set (selected_ev_types sp) \<subseteq> set (selected_ev_types sp')"
  shows "set (filtered_df df sp) \<subseteq> set (filtered_df df sp')
         \<and> subseq (filtered_df df sp) (filtered_df df sp')"
proof -
  have imp: "spec_passes sp r \<Longrightarrow> spec_passes sp' r" for r
    using assms by (auto simp: spec_passes_def)
  have "filtered_df df sp = filter (spec_passes sp) (filtered_df df sp')"
    using imp by (auto simp: filtered_df_filter intro: filter_cong)
  then show ?thesis
    by (metis filter_is_subset subseq_filter_left)
qed

theorem filter_widening_witness:
  "set (selected_states (sample_spec\<lparr>selected_states := [Some ''CA'']\<rparr>))
     \<subseteq> set (selected_states sample_spec)
   \<and> filtered_df sample_df (sample_spec\<lparr>selected_states := [Some ''CA'']\<rparr>) = [row3, row5]
   \<and> set [row3, row5] \<subseteq> set (filtered_df sample_df sample_spec)"
proof -
  have narrow: "filtered_df sample_df (sample_spec\<lparr>selected_states := [Some ''CA'']\<rparr>) = [row3, row5]"
    by (simp add: filtered_df_filter spec_passes_def sample_defs)
  have sub: "set (selected_states (sample_spec\<lparr>selected_states := [Some ''CA'']\<rparr>))
               \<subseteq> set (selected_states sample_spec)"
    by (simp add: sample_spec_def)
  from filter_widening [of sample_spec "sample_spec\<lparr>selected_states := [Some ''CA'']\<rparr>" sample_df]
  have "set (filtered_df sample_df (sample_spec\<lparr>selected_states := [Some ''CA'']\<rparr>))
          \<subseteq> set (filtered_df sample_df sample_spec)"
    using sub by simp
  with narrow sub show ?thesis
    by simp
qed

section \<open>Properties of the rounding\<close>

lemma bitlen_pos: "0 < n \<Longrightarrow> 1 \<le> bitlen n"
  using bitlen_eq_zero_iff [of n] bitlen_nonneg [of n] by linarith

lemma ilog2_lower:
  assumes "0 < x"
  shows "power_int 2 (ilog2 x) \<le> x"
proof (cases "1 \<le> x")
  case True
  define n where "n = \<lfloor>x\<rfloor>"
  have n: "0 < n" using True by (simp add: n_def)
  have "(2::int) ^ nat (bitlen n - 1) \<le> n"
    using bitlen_bounds [OF n] by simp
  then have "(of_int (2 ^ nat (bitlen n - 1)) :: rat) \<le> of_int n"
    by (simp only: of_int_le_iff)
  also have "\<dots> \<le> x" by (simp add: n_def)
  finally have "(2::rat) ^ nat (bitlen n - 1) \<le> x" by simp
  moreover have "0 \<le> bitlen n - 1" using bitlen_pos [OF n] by simp
  ultimately show ?thesis
    using True by (simp add: ilog2_def n_def power_int_def)
next
  case False
  define n where "n = \<lceil>1 / x\<rceil> - 1"
  have "1 < 1 / x" using False assms by simp
  then have n: "0 < n" by (simp add: n_def less_ceiling_iff)
  have "n < 2 ^ nat (bitlen n)"
    using bitlen_bounds [OF n] by simp
  then have "n + 1 \<le> 2 ^ nat (bitlen n)" by simp
  then have "(of_int (n + 1) :: rat) \<le> of_int (2 ^ nat (bitlen n))"
    by (simp only: of_int_le_iff)
  moreover have "1 / x \<le> of_int (n + 1)" by (simp add: n_def)
  ultimately have "1 / x \<le> 2 ^ nat (bitlen n)" by simp
  then have "1 / 2 ^ nat (bitlen n) \<le> x"
    using assms by (simp add: field_simps)
  moreover have "0 < bitlen n" using bitlen_pos [OF n] by simp
  ultimately show ?thesis
    using False by (simp add: ilog2_def n_def power_int_def inverse_eq_divide power_one_over)
qed

lemma ilog2_upper:
  assumes "0 < x"
  shows "x < power_int 2 (ilog2 x + 1)"
proof (cases "1 \<le> x")
  case True
  define n where "n = \<lfloor>x\<rfloor>"
  have n: "0 < n" using True by (simp add: n_def)
  have "n < 2 ^ nat (bitlen n)"
    using bitlen_bounds [OF n] by simp
  then have "n + 1 \<le> 2 ^ nat (bitlen n)" by simp
  then have "(of_int (n + 1) :: rat) \<le> of_int (2 ^ nat (bitlen n))"
    by (simp only: of_int_le_iff)
  moreover have "x < of_int (n + 1)" unfolding n_def by linarith
  ultimately have "x < 2 ^ nat (bitlen n)" by simp
  moreover have "0 \<le> bitlen n" by (rule bitlen_nonneg)
  ultimately show ?thesis
    using True by (simp add: ilog2_def n_def power_int_def)
next
  case False
  define n where "n = \<lceil>1 / x\<rceil> - 1"
  have "1 < 1 / x" using False assms by simp
  then have n: "0 < n" by (simp add: n_def less_ceiling_iff)
  have k: "1 \<le> bitlen n" using bitlen_pos [OF n] .
  have "(2::int) ^ nat (bitlen n - 1) \<le> n"
    using bitlen_bounds [OF n] by simp
  then have "(of_int (2 ^ nat (bitlen n - 1)) :: rat) \<le> of_int n"
    by (simp only: of_int_le_iff)
  then have "(2::rat) ^ nat (bitlen n - 1) \<le> of_int n"
    by (simp only: of_int_power of_int_numeral)
  moreover have "of_int n < 1 / x"
    using ceiling_correct [of "1 / x"] by (simp add: n_def)
  ultimately have "2 ^ nat (bitlen n - 1) < 1 / x"
    by (rule order_le_less_trans)
  then have "x < 1 / 2 ^ nat (bitlen n - 1)"
    using assms by (simp add: field_simps)
  moreover have "ilog2 x = - bitlen n"
    using False by (simp add: ilog2_def n_def)
  moreover have "power_int (2::rat) (- bitlen n + 1) = 1 / 2 ^ nat (bitlen n - 1)"
  proof -
    have "power_int (2::rat) (- (bitlen n - 1)) = inverse (power_int 2 (bitlen n - 1))"
      by (rule power_int_minus)
    also have "power_int (2::rat) (bitlen n - 1) = 2 ^ nat (bitlen n - 1)"
      using k by (simp add: power_int_def)
    finally show ?thesis
      by (simp add: inverse_eq_divide)
  qed
  ultimately show ?thesis
    by simp
qed

lemma ilog2_unique:
  assumes "0 < x" "power_int 2 e \<le> x" "x < power_int 2 (e + 1)"
  shows "ilog2 x = e"
proof -
  have "power_int (2::rat) (ilog2 x) < power_int 2 (e + 1)"
    using ilog2_lower [OF assms(1)] assms(3) by simp
  then have "ilog2 x < e + 1"
    by (metis linorder_not_less power_int_increasing one_le_numeral)
  moreover have "power_int (2::rat) e < power_int 2 (ilog2 x + 1)"
    using ilog2_upper [OF assms(1)] assms(2) by simp
  then have "e < ilog2 x + 1"
    by (metis linorder_not_less power_int_increasing one_le_numeral)
  ultimately show ?thesis by simp
qed

lemma rne_eqI:
  assumes "\<bar>r - of_int m\<bar> < 1 / 2"
  shows "rne r = m"
proof (cases "of_int m \<le> r")
  case True
  then have "\<lfloor>r\<rfloor> = m"
    using assms by (intro floor_unique) auto
  then show ?thesis
    using assms True by (simp add: rne_def Let_def)
next
  case False
  then have "\<lfloor>r\<rfloor> = m - 1"
    using assms by (intro floor_unique) auto
  then show ?thesis
    using assms False by (auto simp: rne_def Let_def)
qed

lemma rne_of_int: "rne (of_int m) = m"
  by (rule rne_eqI) simp



text \<open>
  A way to check a rounding without computing it: the exponent and the significand are
  given and tested.
\<close>

lemma round64_pos_eqI:
  assumes "0 < x" "- 1022 \<le> e" "power_int 2 e \<le> x" "x < power_int 2 (e + 1)"
    and "\<bar>x / power_int 2 (e - 52) - of_int m\<bar> < 1 / 2"
    and "y = of_int m * power_int 2 (e - 52)" "y < power_int 2 1024"
  shows "round64 x = Finite y"
proof -
  have "ilog2 \<bar>x\<bar> = e"
    using assms(1,3,4) by (intro ilog2_unique) simp_all
  then have "max (ilog2 \<bar>x\<bar>) (- 1022) = e"
    using assms(2) by simp
  moreover have "rne (\<bar>x\<bar> / power_int 2 (e - 52)) = m"
    using assms(1,5) by (intro rne_eqI) simp
  ultimately show ?thesis
    using assms(1,6,7) by (simp add: round64_def Let_def del: power_int_numeral)
qed

text \<open>Integers up to \<open>2^53\<close> in size are float64 values.\<close>

lemma round64_of_int:
  assumes "\<bar>n\<bar> \<le> 2 ^ 53"
  shows "round64 (of_int n) = Finite (of_int n)"
proof (cases "n = 0")
  case True
  then show ?thesis by (simp add: round64_def)
next
  case False
  define a :: rat where "a = of_int \<bar>n\<bar>"
  define e where "e = ilog2 a"
  have "1 \<le> \<bar>n\<bar>" using False by simp
  then have a1: "1 \<le> a" unfolding a_def by (simp only: of_int_1_le_iff)
  then have a0: "0 < a" by simp
  have "(of_int \<bar>n\<bar> :: rat) \<le> of_int (2 ^ 53)"
    using assms by (simp only: of_int_le_iff)
  then have a53: "a \<le> 2 ^ 53" by (simp add: a_def)
  have lo: "power_int 2 e \<le> a" and hi: "a < power_int 2 (e + 1)"
    unfolding e_def using ilog2_lower ilog2_upper a0 by blast+
  have e0: "0 \<le> e"
  proof (rule ccontr)
    assume "\<not> 0 \<le> e"
    then have "power_int (2::rat) (e + 1) \<le> power_int 2 0"
      by (intro power_int_increasing) simp_all
    with hi a1 show False by simp
  qed
  have e53: "e \<le> 53"
  proof (rule ccontr)
    assume "\<not> e \<le> 53"
    then have "power_int (2::rat) 54 \<le> power_int 2 e"
      by (intro power_int_increasing) simp_all
    with lo a53 show False by simp
  qed
  have exact: "of_int (rne (a / power_int 2 (e - 52))) * power_int 2 (e - 52) = a"
  proof (cases "e \<le> 52")
    case True
    have "power_int (2::rat) (e - 52) * power_int 2 (52 - e) = 1"
      by (simp flip: power_int_add)
    then have "a / power_int 2 (e - 52) = a * power_int 2 (52 - e)"
      by (simp add: field_simps)
    also have "\<dots> = of_int (\<bar>n\<bar> * 2 ^ nat (52 - e))"
      using True by (simp add: a_def power_int_def)
    finally have "rne (a / power_int 2 (e - 52)) = \<bar>n\<bar> * 2 ^ nat (52 - e)"
      by (simp only: rne_of_int)
    moreover have "of_int (\<bar>n\<bar> * 2 ^ nat (52 - e)) * power_int (2::rat) (e - 52)
                     = a * (power_int 2 (52 - e) * power_int 2 (e - 52))"
      using True by (simp add: a_def power_int_def)
    ultimately show ?thesis
      by (simp flip: power_int_add)
  next
    case False
    with e53 have e: "e = 53" by simp
    with lo a53 have "a = 2 ^ 53" by simp
    moreover have "rne ((2::rat) ^ 53 / 2) = 2 ^ 52"
      by (rule rne_eqI) simp
    ultimately show ?thesis
      using e by simp
  qed
  have "max (ilog2 \<bar>rat_of_int n\<bar>) (- 1022) = e"
    using e0 by (simp add: e_def a_def)
  moreover have "a < power_int 2 1024"
    using a53 by simp
  ultimately show ?thesis
    using False exact
    by (simp add: round64_def Let_def a_def [symmetric] del: power_int_numeral)
       (auto simp: a_def abs_if)
qed


lemma to_float_exact: "\<bar>n\<bar> \<le> 2 ^ 53 \<Longrightarrow> to_float n = Finite (of_int n)"
  by (simp add: to_float_def round64_of_int)

lemma sum_left_snoc: "sum_left (xs @ [x]) = fadd (sum_left xs) (to_float x)"
  by (simp add: sum_left_def)

text \<open>Below \<open>2^53\<close> the sum from left to right of cells that are not negative is exact.\<close>

lemma sum_left_exact:
  assumes "\<forall>x\<in>set xs. 0 \<le> x" "sum_list xs \<le> 2 ^ 53"
  shows "sum_left xs = Finite (of_int (sum_list xs))"
  using assms
proof (induction xs rule: rev_induct)
  case Nil
  show ?case by (simp add: sum_left_def)
next
  case (snoc x xs)
  have nonneg: "0 \<le> sum_list xs" "0 \<le> x"
    using snoc.prems(1) by (auto intro: sum_list_nonneg)
  with snoc.prems(2) have small: "sum_list xs \<le> 2 ^ 53" "x \<le> 2 ^ 53"
    by simp_all
  have "sum_left xs = Finite (of_int (sum_list xs))"
    using snoc.IH snoc.prems(1) small(1) by simp
  moreover have "to_float x = Finite (of_int x)"
    using nonneg(2) small(2) by (intro to_float_exact) simp
  moreover have "round64 (of_int (sum_list xs + x)) = Finite (of_int (sum_list xs + x))"
    using nonneg snoc.prems(2) by (intro round64_of_int) simp
  ultimately show ?case
    by (simp add: sum_left_snoc)
qed

section \<open>Properties of the tables of counts\<close>

lemma value_count_snoc: "value_count (xs @ [x]) = bump x (value_count xs)"
  by (simp add: value_count_def)

lemma first_appearance_snoc:
  "first_appearance (xs @ [x]) =
     (if x \<in> set xs then first_appearance xs else first_appearance xs @ [x])"
  by (simp add: first_appearance_def)

lemma set_first_appearance: "set (first_appearance col) = set col"
  by (simp add: first_appearance_def)

lemma distinct_first_appearance: "distinct (first_appearance col)"
  by (simp add: first_appearance_def)

lemma bump_map_seen:
  "x \<in> set ks \<Longrightarrow> distinct ks \<Longrightarrow>
     bump x (map (\<lambda>k. (k, f k)) ks) = map (\<lambda>k. (k, if k = x then Suc (f k) else f k)) ks"
  by (induction ks) auto

lemma bump_map_new:
  "x \<notin> set ks \<Longrightarrow> bump x (map (\<lambda>k. (k, f k)) ks) = map (\<lambda>k. (k, f k)) ks @ [(x, 1)]"
  by (induction ks) auto

lemma value_count_eq:
  "value_count col = map (\<lambda>k. (k, count_list col k)) (first_appearance col)"
proof (induction col rule: rev_induct)
  case Nil
  show ?case by (simp add: value_count_def first_appearance_def)
next
  case (snoc x xs)
  show ?case
  proof (cases "x \<in> set xs")
    case True
    then have "x \<in> set (first_appearance xs)"
      by (simp add: set_first_appearance)
    then show ?thesis
      using True snoc
      by (simp add: value_count_snoc first_appearance_snoc bump_map_seen
          distinct_first_appearance)
  next
    case False
    then have new: "x \<notin> set (first_appearance xs)"
      by (simp add: set_first_appearance)
    have "count_list xs x = 0"
      using False by (simp add: count_list_0_iff)
    moreover have "map (\<lambda>k. (k, count_list xs k)) (first_appearance xs)
        = map (\<lambda>k. (k, count_list (xs @ [x]) k)) (first_appearance xs)"
      using new by (auto simp: set_first_appearance)
    ultimately show ?thesis
      using False snoc new
      by (simp add: value_count_snoc first_appearance_snoc bump_map_new)
  qed
qed

lemma first_index_snoc_old:
  "k \<in> set xs \<Longrightarrow> first_index (xs @ [x]) k = first_index xs k"
  by (simp add: first_index_def takeWhile_append1)

lemma first_index_less: "k \<in> set xs \<Longrightarrow> first_index xs k < length xs"
  by (induction xs) (auto simp: first_index_def)

lemma first_index_snoc_new:
  "x \<notin> set xs \<Longrightarrow> first_index (xs @ [x]) x = length xs"
  by (induction xs) (auto simp: first_index_def)

lemma sorted_first_appearance:
  "sorted_wrt (\<lambda>a b. first_index col a < first_index col b) (first_appearance col)"
proof (induction col rule: rev_induct)
  case Nil
  show ?case by (simp add: first_appearance_def)
next
  case (snoc x xs)
  have old: "sorted_wrt (\<lambda>a b. first_index (xs @ [x]) a < first_index (xs @ [x]) b)
               (first_appearance xs)"
    using snoc
    by (rule sorted_wrt_mono_rel [rotated])
       (simp add: set_first_appearance first_index_snoc_old)
  show ?case
  proof (cases "x \<in> set xs")
    case True
    with old show ?thesis by (simp add: first_appearance_snoc)
  next
    case False
    with old show ?thesis
      by (auto simp: first_appearance_snoc sorted_wrt_append set_first_appearance
          first_index_snoc_old first_index_snoc_new first_index_less)
  qed
qed

lemma sorted_wrt_insort_key_ties:
  assumes "sorted_wrt (\<lambda>a b. f a < f b \<or> (f a = f b \<and> P a b)) xs"
    and "\<forall>y\<in>set xs. P x y"
  shows "sorted_wrt (\<lambda>a b. f a < f b \<or> (f a = f b \<and> P a b)) (insort_key f x xs)"
  using assms
proof (induction xs)
  case Nil
  show ?case by simp
next
  case (Cons y ys)
  show ?case
  proof (cases "f x \<le> f y")
    case True
    have "f x < f z \<or> (f x = f z \<and> P x z)" if "z \<in> set (y # ys)" for z
    proof -
      have "f y \<le> f z"
        using that Cons.prems(1) by auto
      with True have "f x \<le> f z" by simp
      with Cons.prems(2) that show ?thesis by (auto simp: le_less)
    qed
    with True Cons.prems(1) show ?thesis by simp
  next
    case False
    with Cons show ?thesis
      by (auto simp: set_insort_key)
  qed
qed

lemma sorted_wrt_sort_key_ties:
  "sorted_wrt P xs \<Longrightarrow>
     sorted_wrt (\<lambda>a b. f a < f b \<or> (f a = f b \<and> P a b)) (sort_key f xs)"
proof (induction xs)
  case Nil
  show ?case by simp
next
  case (Cons x xs)
  then show ?case
    by (simp add: sorted_wrt_insort_key_ties)
qed

lemma sorted_wrt_sort_values_desc:
  assumes "sorted_wrt P s"
  shows "sorted_wrt (\<lambda>a b. snd b < snd a \<or> (snd a = snd b \<and> P a b)) (sort_values_desc s)"
proof -
  have "sorted_wrt (\<lambda>a b. P b a) (rev s)"
    using assms by (simp add: sorted_wrt_rev)
  then have "sorted_wrt (\<lambda>a b. snd a < snd b \<or> (snd a = snd b \<and> P b a)) (sort_key snd (rev s))"
    by (rule sorted_wrt_sort_key_ties)
  then have "sorted_wrt (\<lambda>b a. snd a < snd b \<or> (snd a = snd b \<and> P b a)) (sort_values_desc s)"
    by (simp add: sort_values_desc_def sorted_wrt_rev)
  then show ?thesis
    by (rule sorted_wrt_mono_rel [rotated]) auto
qed

lemma set_value_counts:
  "set (value_counts col) = (\<lambda>k. (k, count_list (dropna col) k)) ` set (dropna col)"
  by (simp add: value_counts_def sort_values_desc_def value_count_eq set_first_appearance)

lemma distinct_keys_value_count: "distinct (map fst (value_count col))"
  by (simp add: value_count_eq comp_def distinct_first_appearance)

lemma distinct_keys_value_counts: "distinct (map fst (value_counts col))"
  using distinct_keys_value_count [of "dropna col"]
  by (simp add: value_counts_def sort_values_desc_def distinct_map)

lemma value_counts_is_value_counts: "is_value_counts (dropna col) (value_counts col)"
proof -
  define vs where "vs = dropna col"
  have "sorted_wrt (\<lambda>a b. first_index vs (fst a) < first_index vs (fst b)) (value_count vs)"
    using sorted_first_appearance [of vs]
    by (simp add: value_count_eq sorted_wrt_map)
  then have "sorted_wrt (\<lambda>a b. snd b < snd a \<or>
                  (snd a = snd b \<and> first_index vs (fst a) < first_index vs (fst b)))
               (value_counts col)"
    unfolding value_counts_def vs_def by (rule sorted_wrt_sort_values_desc)
  then show ?thesis
    by (simp add: is_value_counts_def set_value_counts distinct_keys_value_counts vs_def)
qed


lemma sum_counts_bump: "sum_list (map snd (bump k acc)) = Suc (sum_list (map snd acc))"
  by (induction acc) auto

lemma sum_counts_value_count: "sum_list (map snd (value_count col)) = length col"
  by (induction col rule: rev_induct)
     (simp_all add: value_count_snoc sum_counts_bump, simp add: value_count_def)

lemma sum_list_insort_key:
  "sum_list (map g (insort_key f x xs)) = g x + (sum_list (map g xs) :: nat)"
  by (induction xs) auto

lemma sum_list_sort_key:
  "sum_list (map g (sort_key f xs)) = (sum_list (map g xs) :: nat)"
  by (induction xs) (simp_all add: sum_list_insort_key)

lemma sum_counts_value_counts: "sum_list (map snd (value_counts col)) = length (dropna col)"
  by (simp add: value_counts_def sort_values_desc_def rev_map [symmetric]
      sum_list_sort_key sum_counts_value_count)

lemma sum_counts_groupby_size: "sum_list (map snd (groupby_size col)) = length col"
  by (simp add: groupby_size_def sum_list_sort_key sum_counts_value_count)

lemma set_groupby_size:
  "set (groupby_size col) = (\<lambda>k. (k, count_list col k)) ` set col"
  by (simp add: groupby_size_def value_count_eq set_first_appearance)

lemma keys_groupby_size_strict: "sorted_wrt (<) (map fst (groupby_size col))"
proof -
  have "distinct (map fst (groupby_size col))"
    using distinct_keys_value_count [of col]
    by (simp add: groupby_size_def distinct_map)
  moreover have "sorted (map fst (groupby_size col))"
    by (simp add: groupby_size_def)
  ultimately show ?thesis
    by (simp add: strict_sorted_iff)
qed

lemma groupby_size_is_groupby_size: "is_groupby_size col (groupby_size col)"
  by (simp add: is_groupby_size_def set_groupby_size keys_groupby_size_strict)

lemma strict_keys_unique:
  fixes s t :: "('a::linorder \<times> 'b) list"
  assumes "sorted_wrt (<) (map fst s)" "sorted_wrt (<) (map fst t)" "set s = set t"
  shows "s = t"
proof -
  have "inj_on fst (set s)"
    using assms(1) by (simp add: strict_sorted_iff distinct_map)
  then have inj: "inj_on fst (set s \<union> set t)"
    using assms(3) by simp
  have "map fst s = map fst t"
    using assms by (intro sorted_distinct_set_unique) (auto simp: strict_sorted_iff)
  then show ?thesis
    by (simp add: inj_on_map_eq_map [OF inj])
qed

lemma groupby_size_perm:
  assumes "mset col = mset col'"
  shows "groupby_size col = groupby_size col'"
proof -
  have "set col = set col'"
    using assms by (rule mset_eq_setD)
  moreover have "count_list col k = count_list col' k" for k
    using assms by (metis count_mset)
  ultimately have "set (groupby_size col) = set (groupby_size col')"
    by (simp add: set_groupby_size)
  then show ?thesis
    by (intro strict_keys_unique keys_groupby_size_strict)
qed

lemma head_prefix: "prefix (head n s) s \<and> length (head n s) = min n (length s)"
  by (simp add: head_def take_is_prefix min.commute)

lemma length_value_counts: "length (value_counts col) = nunique col"
proof -
  have "length (value_counts col) = length (first_appearance (dropna col))"
    by (simp add: value_counts_def sort_values_desc_def value_count_eq)
  also have "\<dots> = card (set (dropna col))"
    using distinct_card [OF distinct_first_appearance [of "dropna col"]]
    by (simp add: set_first_appearance)
  finally show ?thesis
    by (simp add: nunique_def length_remdups_card_conv)
qed


lemma length_dropna: "length (dropna (map f fd)) = length (filter (\<lambda>r. f r \<noteq> None) fd)"
  by (simp add: dropna_def filter_map comp_def)

lemma length_dropna_present:
  "\<forall>r\<in>set fd. f r \<noteq> None \<Longrightarrow> length (dropna (map f fd)) = length fd"
  by (simp add: length_dropna)

text \<open>
  C5, as the claim states it, fails for the model year: the table of counts per model
  year is built by grouping (line 204), which orders it by year, not by count.
\<close>

theorem value_counts_model_year_counterexample:
  "yearly_counts [row3, row1, row2] = [(2021, 1), (2022, 2)]
   \<and> \<not> is_value_counts (map Model_Year [row3, row1, row2]) (yearly_counts [row3, row1, row2])"
proof -
  have t: "yearly_counts [row3, row1, row2] = [(2021, 1), (2022, 2)]"
    by (simp add: yearly_counts_def groupby_size_def value_count_def row1_def row2_def row3_def)
  show ?thesis
    unfolding t by (simp add: is_value_counts_def)
qed

text \<open>
  C5, amended. For make, state, EV type and CAFV eligibility the table of value counts
  has one entry per distinct value of the view (a missing cell is not a value) with its
  number of rows, ordered by count descending and, among equal counts, by first
  appearance in the view; \<open>head n\<close> keeps its first \<open>n\<close> entries (the market-share
  chart keeps 15). For the model year the entries and their counts are the same kind,
  ordered by year ascending.
\<close>

theorem value_counts_by_field:
  "is_value_counts (dropna (map Make fd)) (value_counts (map Make fd))
   \<and> is_value_counts (dropna (map State fd)) (state_counts fd)
   \<and> is_value_counts (dropna (map Electric_Vehicle_Type fd)) (ev_type_counts fd)
   \<and> is_value_counts (dropna (map CAFV_Eligibility fd)) (cafv_counts fd)
   \<and> prefix (head n (value_counts (map Make fd))) (value_counts (map Make fd))
   \<and> length (head n (value_counts (map Make fd))) = min n (nunique (map Make fd))
   \<and> make_counts fd = head 15 (value_counts (map Make fd))
   \<and> is_groupby_size (map Model_Year fd) (yearly_counts fd)"
  using head_prefix [of n "value_counts (map Make fd)"]
  by (simp add: value_counts_is_value_counts groupby_size_is_groupby_size length_value_counts
      state_counts_def ev_type_counts_def cafv_counts_def make_counts_def yearly_counts_def)

theorem value_counts_by_field_witness:
  "is_value_counts [''WA'', ''WA'', ''CA'', ''CA''] [(''WA'', 2), (''CA'', 2)]
   \<and> is_value_counts [''TESLA'', ''TESLA'', ''NISSAN'', ''TESLA''] [(''TESLA'', 3), (''NISSAN'', 1)]
   \<and> is_groupby_size [2022, 2022, 2021, 2021 :: int] [(2021, 2), (2022, 2)]"
proof -
  have s: "state_counts [row1, row2, row3, row5] = [(''WA'', 2), (''CA'', 2)]"
    by (simp add: state_counts_def value_counts_def sort_values_desc_def value_count_def
        dropna_def row1_def row2_def row3_def row5_def)
  have m: "value_counts [Some ''TESLA'', Some ''TESLA'', Some ''NISSAN'', Some ''TESLA'']
             = [(''TESLA'', 3), (''NISSAN'', 1)]"
    by (simp add: value_counts_def sort_values_desc_def value_count_def dropna_def)
  have y: "yearly_counts [row1, row2, row3, row5] = [(2021, 2), (2022, 2)]"
    by (simp add: yearly_counts_def groupby_size_def value_count_def
        row1_def row2_def row3_def row5_def)
  have c: "map State [row1, row2, row3, row5] = [Some ''WA'', Some ''WA'', Some ''CA'', Some ''CA'']"
    "map Make [row1, row2, row3, row5]
       = [Some ''TESLA'', Some ''TESLA'', Some ''NISSAN'', Some ''TESLA'']"
    "map Model_Year [row1, row2, row3, row5] = [2022, 2022, 2021, 2021]"
    by (simp_all add: row1_def row2_def row3_def row5_def)
  have d: "dropna [Some ''WA'', Some ''WA'', Some ''CA'', Some ''CA''] = [''WA'', ''WA'', ''CA'', ''CA'']"
    "dropna [Some ''TESLA'', Some ''TESLA'', Some ''NISSAN'', Some ''TESLA'']
       = [''TESLA'', ''TESLA'', ''NISSAN'', ''TESLA'']"
    by (simp_all add: dropna_def)
  from value_counts_by_field [of "[row1, row2, row3, row5]" 15]
  show ?thesis
    unfolding s y c m d by blast
qed

text \<open>
  C7, as the claim states it, fails: a missing cell is not counted. In a view of three
  rows whose second row has no CAFV eligibility the counts of that field add up to 2.
\<close>

theorem counts_missing_cell_counterexample:
  "filtered_df [row1, row2\<lparr>CAFV_Eligibility := None\<rparr>, row3] sample_spec
     = [row1, row2\<lparr>CAFV_Eligibility := None\<rparr>, row3]
   \<and> cafv_counts [row1, row2\<lparr>CAFV_Eligibility := None\<rparr>, row3] = [(''Y'', 1), (''U'', 1)]
   \<and> sum_list (map snd (cafv_counts [row1, row2\<lparr>CAFV_Eligibility := None\<rparr>, row3])) = 2
   \<and> length [row1, row2\<lparr>CAFV_Eligibility := None\<rparr>, row3] = 3"
proof -
  have c: "cafv_counts [row1, row2\<lparr>CAFV_Eligibility := None\<rparr>, row3] = [(''Y'', 1), (''U'', 1)]"
    by (simp add: cafv_counts_def value_counts_def sort_values_desc_def value_count_def
        dropna_def row1_def row2_def row3_def)
  have f: "filtered_df [row1, row2\<lparr>CAFV_Eligibility := None\<rparr>, row3] sample_spec
             = [row1, row2\<lparr>CAFV_Eligibility := None\<rparr>, row3]"
    by (simp add: filtered_df_filter spec_passes_def sample_spec_def row1_def row2_def row3_def)
  show ?thesis
    unfolding c f by simp
qed

text \<open>
  C7, amended. The counts of a table of value counts add up to the number of rows of the
  view whose cell of that field is not missing, for make, state, EV type and CAFV
  eligibility; so they add up to the number of rows of the view when no cell of the field
  is missing. The counts of the yearly table add up to the number of rows of the view.
\<close>

theorem counts_sum_to_present:
  "sum_list (map snd (value_counts (map Make fd))) = length (filter (\<lambda>r. Make r \<noteq> None) fd)
   \<and> sum_list (map snd (state_counts fd)) = length (filter (\<lambda>r. State r \<noteq> None) fd)
   \<and> sum_list (map snd (ev_type_counts fd))
       = length (filter (\<lambda>r. Electric_Vehicle_Type r \<noteq> None) fd)
   \<and> sum_list (map snd (cafv_counts fd))
       = length (filter (\<lambda>r. CAFV_Eligibility r \<noteq> None) fd)
   \<and> sum_list (map snd (yearly_counts fd)) = length fd
   \<and> ((\<forall>r\<in>set fd. Make r \<noteq> None) \<longrightarrow>
         sum_list (map snd (value_counts (map Make fd))) = length fd)
   \<and> ((\<forall>r\<in>set fd. State r \<noteq> None) \<longrightarrow> sum_list (map snd (state_counts fd)) = length fd)
   \<and> ((\<forall>r\<in>set fd. Electric_Vehicle_Type r \<noteq> None) \<longrightarrow>
         sum_list (map snd (ev_type_counts fd)) = length fd)
   \<and> ((\<forall>r\<in>set fd. CAFV_Eligibility r \<noteq> None) \<longrightarrow>
         sum_list (map snd (cafv_counts fd)) = length fd)"
proof -
  have present: "sum_list (map snd (value_counts (map f fd))) = length (filter (\<lambda>r. f r \<noteq> None) fd)"
    for f :: "ev_record \<Rightarrow> string option"
    by (simp add: sum_counts_value_counts length_dropna)
  have full: "(\<forall>r\<in>set fd. f r \<noteq> None) \<longrightarrow> sum_list (map snd (value_counts (map f fd))) = length fd"
    for f :: "ev_record \<Rightarrow> string option"
    by (simp add: sum_counts_value_counts length_dropna_present)
  have "sum_list (map snd (yearly_counts fd)) = length fd"
    by (simp add: yearly_counts_def sum_counts_groupby_size)
  then show ?thesis
    using present [of Make] present [of State] present [of Electric_Vehicle_Type]
      present [of CAFV_Eligibility] full [of Make] full [of State]
      full [of Electric_Vehicle_Type] full [of CAFV_Eligibility]
    unfolding state_counts_def ev_type_counts_def cafv_counts_def
    by blast
qed

theorem counts_sum_to_present_witness:
  "sum_list (map snd (cafv_counts (filtered_df sample_df sample_spec))) = 4
   \<and> sum_list (map snd (state_counts (filtered_df sample_df sample_spec))) = 4
   \<and> sum_list (map snd (yearly_counts (filtered_df sample_df sample_spec))) = 4
   \<and> sum_list (map snd (cafv_counts [row1, row2\<lparr>CAFV_Eligibility := None\<rparr>, row3]))
       = length (filter (\<lambda>r. CAFV_Eligibility r \<noteq> None)
           [row1, row2\<lparr>CAFV_Eligibility := None\<rparr>, row3])"
proof -
  have all: "\<forall>r\<in>set [row1, row2, row3, row5]. CAFV_Eligibility r \<noteq> None"
    "\<forall>r\<in>set [row1, row2, row3, row5]. State r \<noteq> None"
    by (simp_all add: row1_def row2_def row3_def row5_def)
  from counts_sum_to_present [of "[row1, row2, row3, row5]"] all
  have "sum_list (map snd (cafv_counts [row1, row2, row3, row5])) = length [row1, row2, row3, row5]"
    "sum_list (map snd (state_counts [row1, row2, row3, row5])) = length [row1, row2, row3, row5]"
    "sum_list (map snd (yearly_counts [row1, row2, row3, row5])) = length [row1, row2, row3, row5]"
    by blast+
  moreover from counts_sum_to_present [of "[row1, row2\<lparr>CAFV_Eligibility := None\<rparr>, row3]"]
  have "sum_list (map snd (cafv_counts [row1, row2\<lparr>CAFV_Eligibility := None\<rparr>, row3]))
       = length (filter (\<lambda>r. CAFV_Eligibility r \<noteq> None)
           [row1, row2\<lparr>CAFV_Eligibility := None\<rparr>, row3])"
    by blast
  ultimately show ?thesis
    by (simp add: sample_filtered)
qed

text \<open>
  C10. The yearly table lists the model years of the view in strictly ascending order,
  each once, whatever the order of the rows: two views with the same rows in different
  orders give the same table.
\<close>

theorem yearly_counts_ascending:
  "sorted_wrt (<) (map fst (yearly_counts fd))
   \<and> set (map fst (yearly_counts fd)) = Model_Year ` set fd
   \<and> (mset fd' = mset fd \<longrightarrow> yearly_counts fd' = yearly_counts fd)"
proof -
  have "yearly_counts fd' = yearly_counts fd" if "mset fd' = mset fd"
  proof -
    from that have "mset (map Model_Year fd') = mset (map Model_Year fd)"
      by simp
    then show ?thesis
      unfolding yearly_counts_def by (rule groupby_size_perm)
  qed
  moreover have "set (map fst (yearly_counts fd)) = Model_Year ` set fd"
    by (simp add: yearly_counts_def set_groupby_size image_image)
  ultimately show ?thesis
    by (simp add: yearly_counts_def keys_groupby_size_strict)
qed

theorem yearly_counts_ascending_witness:
  "mset [row5, row4, row1] = mset [row4, row1, row5]
   \<and> yearly_counts [row4, row1, row5] = [(2021, 1), (2022, 1), (2023, 1)]
   \<and> yearly_counts [row5, row4, row1] = [(2021, 1), (2022, 1), (2023, 1)]"
proof -
  have p: "mset [row5, row4, row1] = mset [row4, row1, row5]"
    by simp
  have y: "yearly_counts [row4, row1, row5] = [(2021, 1), (2022, 1), (2023, 1)]"
    by (simp add: yearly_counts_def groupby_size_def value_count_def
        row1_def row4_def row5_def)
  from yearly_counts_ascending [of "[row4, row1, row5]" "[row5, row4, row1]"] p
  have "yearly_counts [row5, row4, row1] = yearly_counts [row4, row1, row5]"
    by blast
  with p y show ?thesis
    by simp
qed

section \<open>Properties of the average range\<close>

lemma getitem_mask_gt0:
  "map Electric_Range (getitem_mask fd (gt0 (map Electric_Range fd)))
     = filter (\<lambda>x. 0 < x) (map Electric_Range fd)"
  by (simp add: gt0_def getitem_mask_map filter_map comp_def)

lemma round64_not_NaN: "round64 x \<noteq> NaN"
  by (simp add: round64_def Let_def)

lemma mean_exact_sum:
  assumes "col \<noteq> []" "length col \<le> 2 ^ 53" "fsum col = Finite (of_int (sum_list col))"
  shows "mean fsum col = round64 (of_int (sum_list col) / of_nat (length col))"
proof -
  have "\<bar>int (length col)\<bar> \<le> 2 ^ 53"
    using assms(2) by (simp add: of_nat_le_numeral_power_cancel_iff del: of_nat_numeral)
  then have "to_float (int (length col)) = Finite (of_nat (length col))"
    using to_float_exact [of "int (length col)"] by simp
  then show ?thesis
    using assms(1,3) by (simp add: mean_def)
qed

text \<open>
  C3. On a view of at most \<open>2^53\<close> rows whose ranges are not negative, with a float sum
  that is exact on the ranges other than the sentinel 0 (as every order of adding them is
  while their total is at most \<open>2^53\<close>), the average range is the float64 nearest to
  the sum of those ranges divided by their number (150 for 0, 100, 0, 200), and that is
  the value the metric shows; when every range is the sentinel the metric shows N/A and
  the insight on the average range is left out.
\<close>

theorem avg_range_excludes_sentinel:
  assumes "\<forall>r\<in>set fd. 0 \<le> Electric_Range r"
    and "length fd \<le> 2 ^ 53"
    and "fsum (filter (\<lambda>x. x \<noteq> 0) (map Electric_Range fd))
           = Finite (of_int (sum_list (filter (\<lambda>x. x \<noteq> 0) (map Electric_Range fd))))"
  shows "let valid = filter (\<lambda>x. x \<noteq> 0) (map Electric_Range fd) in
           (valid \<noteq> [] \<longrightarrow>
              avg_range fsum fd = round64 (of_int (sum_list valid) / of_nat (length valid))
              \<and> avg_range_value fsum fd = Shown (avg_range fsum fd))
         \<and> (valid = [] \<longrightarrow>
              avg_range_value fsum fd = N_A
              \<and> (\<forall>ins. insights fsum fd = Inr ins \<longrightarrow> average_range ins = None))"
proof -
  define valid where "valid = filter (\<lambda>x. x \<noteq> 0) (map Electric_Range fd)"
  have ins: "average_range ins
               = (if \<not> isna (avg_range fsum fd) then Some (avg_range fsum fd) else None)"
    if "insights fsum fd = Inr ins" for ins
    using that by (auto simp: insights_def split: sum.splits prod.splits)
  have "filter (\<lambda>x. 0 < x) (map Electric_Range fd) = valid"
    unfolding valid_def using assms(1) by (intro filter_cong) auto
  then have avg: "avg_range fsum fd = mean fsum valid"
    by (simp add: avg_range_def getitem_mask_gt0)
  have "length valid \<le> length fd"
    unfolding valid_def by (metis length_filter_le length_map)
  with assms(2) have len: "length valid \<le> 2 ^ 53"
    by simp
  have full: "avg_range fsum fd = round64 (of_int (sum_list valid) / of_nat (length valid))"
    if "valid \<noteq> []"
    using that len assms(3) avg by (simp add: mean_exact_sum valid_def)
  have none: "avg_range fsum fd = NaN" if "valid = []"
    using that avg by (simp add: mean_def)
  show ?thesis
    using full none ins
    by (auto simp: Let_def valid_def [symmetric] avg_range_value_def isna_def round64_not_NaN)
qed

lemma round64_150: "round64 150 = Finite 150"
  using round64_of_int [of 150] by simp

lemma round64_820_3: "round64 (820 / 3) = Finite (4808530852140373 / 17592186044416)"
  by (rule round64_pos_eqI [where e = 8 and m = 4808530852140373]) simp_all

theorem avg_range_excludes_sentinel_witness:
  "map Electric_Range range_rows = [0, 100, 0, 200]
   \<and> avg_range sum_left range_rows = Finite 150
   \<and> avg_range_value sum_left range_rows = Shown (Finite 150)
   \<and> map Electric_Range [row1, row2, row3, row5] = [250, 300, 0, 270]
   \<and> avg_range sum_left [row1, row2, row3, row5] = Finite (4808530852140373 / 17592186044416)
   \<and> avg_range_value sum_left [row3] = N_A"
proof -
  have col: "map Electric_Range range_rows = [0, 100, 0, 200]"
    "map Electric_Range [row1, row2, row3, row5] = [250, 300, 0, 270]"
    "map Electric_Range [row3] = [0]"
    by (simp_all add: range_rows_def row1_def row2_def row3_def row5_def)
  have nn: "\<forall>r\<in>set range_rows. 0 \<le> Electric_Range r"
    "\<forall>r\<in>set [row1, row2, row3, row5]. 0 \<le> Electric_Range r"
    "\<forall>r\<in>set [row3]. 0 \<le> Electric_Range r"
    by (simp_all add: range_rows_def row1_def row2_def row3_def row5_def)
  have len: "length range_rows \<le> 2 ^ 53" "length [row1, row2, row3, row5] \<le> 2 ^ 53"
    "length [row3] \<le> 2 ^ 53"
    by (simp_all add: range_rows_def)
  have s: "sum_left [100, 200] = Finite (of_int (sum_list [100, 200]))"
    "sum_left [250, 300, 270] = Finite (of_int (sum_list [250, 300, 270]))"
    "sum_left [] = Finite (of_int (sum_list []))"
    by (rule sum_left_exact; simp)+
  have a: "avg_range sum_left range_rows = Finite 150"
    "avg_range_value sum_left range_rows = Shown (Finite 150)"
    using avg_range_excludes_sentinel [of range_rows sum_left, OF nn(1) len(1)] s(1)
    unfolding col by (simp_all add: Let_def round64_150)
  have b: "avg_range sum_left [row1, row2, row3, row5]
             = Finite (4808530852140373 / 17592186044416)"
    using avg_range_excludes_sentinel [of "[row1, row2, row3, row5]" sum_left, OF nn(2) len(2)] s(2)
    unfolding col by (simp add: Let_def round64_820_3)
  have c: "avg_range_value sum_left [row3] = N_A"
    using avg_range_excludes_sentinel [of "[row3]" sum_left, OF nn(3) len(3)] s(3)
    unfolding col by (simp add: Let_def)
  from col(1,2) a b c show ?thesis
    by simp
qed

section \<open>Properties of the growth rate\<close>


















lemma round64_small_ints:
  "round64 0 = Finite 0" "round64 1 = Finite 1" "round64 2 = Finite 2"
  "round64 100 = Finite 100" "round64 (- 1) = Finite (- 1)" "round64 (- 100) = Finite (- 100)"
  using round64_of_int [of 0] round64_of_int [of 1] round64_of_int [of 2]
    round64_of_int [of 100] round64_of_int [of "- 1"] round64_of_int [of "- 100"]
  by simp_all





section \<open>The page for an empty view\<close>

lemma value_counts_Nil: "value_counts [] = []"
  by (simp add: value_counts_def sort_values_desc_def value_count_def dropna_def)

lemma groupby_size_Nil: "groupby_size [] = []"
  by (simp add: groupby_size_def value_count_def)

text \<open>Without the guard of line 114 the first insight would raise on the empty view.\<close>

lemma insights_empty_raises: "insights fsum [] = Inl IndexError"
  by (simp add: insights_def index0_def value_counts_Nil)

text \<open>
  C4. When the selection matches no row (as it does whenever no state is selected), the
  run raises nothing and shows the warning page, which carries no insight; the tables of
  counts of the empty view are empty, it has no growth chart, and its average range
  reads N/A.
\<close>

theorem empty_view_page:
  assumes "filtered_df df sp = []"
  shows "app fsum df sp = Inr No_Data_Warning
     \<and> page_insights No_Data_Warning = None
     \<and> make_counts (filtered_df df sp) = []
     \<and> ev_type_counts (filtered_df df sp) = []
     \<and> state_counts (filtered_df df sp) = []
     \<and> cafv_counts (filtered_df df sp) = []
     \<and> yearly_counts (filtered_df df sp) = []
     \<and> fig_growth (yearly_counts (filtered_df df sp)) = None
     \<and> avg_range_value fsum (filtered_df df sp) = N_A
     \<and> (selected_states sp' = [] \<longrightarrow> app fsum df sp' = Inr No_Data_Warning)"
proof -
  have page: "app fsum df s = Inr No_Data_Warning" if "filtered_df df s = []" for s
    using that by (simp add: app_def)
  have "filtered_df df sp' = []" if "selected_states sp' = []"
    using that by (simp add: filtered_df_filter spec_passes_def)
  with page have "selected_states sp' = [] \<longrightarrow> app fsum df sp' = Inr No_Data_Warning"
    by blast
  moreover have "avg_range_value fsum [] = N_A"
    by (simp add: avg_range_value_def avg_range_def mean_def isna_def gt0_def getitem_mask_def)
  ultimately show ?thesis
    using page [OF assms]
    by (simp add: assms make_counts_def head_def ev_type_counts_def state_counts_def
        cafv_counts_def yearly_counts_def value_counts_Nil groupby_size_Nil fig_growth_def)
qed

theorem empty_view_page_witness:
  "filtered_df sample_df (sample_spec\<lparr>selected_ev_types := []\<rparr>) = []
   \<and> app sum_left sample_df (sample_spec\<lparr>selected_ev_types := []\<rparr>) = Inr No_Data_Warning
   \<and> app sum_left sample_df (sample_spec\<lparr>selected_states := []\<rparr>) = Inr No_Data_Warning"
proof -
  have e: "filtered_df sample_df (sample_spec\<lparr>selected_ev_types := []\<rparr>) = []"
    by (simp add: filtered_df_filter spec_passes_def)
  have s: "selected_states (sample_spec\<lparr>selected_states := []\<rparr>) = []"
    by simp
  from empty_view_page [OF e, of sum_left "sample_spec\<lparr>selected_states := []\<rparr>"] s e
  show ?thesis
    by blast
qed

section \<open>The end-to-end scenario\<close>

lemma round64_3_4: "round64 (3 / 4) = Finite (3 / 4)"
  by (rule round64_pos_eqI [where e = "- 1" and m = 6755399441055744]) simp_all

lemma round64_1_2: "round64 (1 / 2) = Finite (1 / 2)"
  by (rule round64_pos_eqI [where e = "- 1" and m = 4503599627370496]) simp_all

lemma round64_75_50: "round64 75 = Finite 75" "round64 50 = Finite 50"
  using round64_of_int [of 75] round64_of_int [of 50] by simp_all

lemma to_float_2_3_4: "to_float 2 = Finite 2" "to_float 3 = Finite 3" "to_float 4 = Finite 4"
  using to_float_exact [of 2] to_float_exact [of 3] to_float_exact [of 4] by simp_all

text \<open>
  The scenario of the specification: four of the five registrations pass the selection,
  the makes are counted TESLA 3 and NISSAN 1, the average range is 273.3333333333333, and
  the market leader is TESLA with 75 percent.
\<close>

lemma sample_scenario:
  "filtered_df sample_df sample_spec = [row1, row2, row3, row5]
   \<and> make_counts [row1, row2, row3, row5] = [(''TESLA'', 3), (''NISSAN'', 1)]
   \<and> insights sum_left [row1, row2, row3, row5]
       = Inr \<lparr>market_leader = (''TESLA'', 3, Finite 75),
               average_range = Some (Finite (4808530852140373 / 17592186044416)),
               vehicle_preference = (''BEV'', Finite 100),
               geographic_leader = (''WA'', 2, Finite 50)\<rparr>"
proof -
  have m: "value_counts (map Make [row1, row2, row3, row5]) = [(''TESLA'', 3), (''NISSAN'', 1)]"
    by (simp add: value_counts_def sort_values_desc_def value_count_def dropna_def
        row1_def row2_def row3_def row5_def)
  have t: "value_counts (map Electric_Vehicle_Type [row1, row2, row3, row5]) = [(''BEV'', 4)]"
    by (simp add: value_counts_def sort_values_desc_def value_count_def dropna_def
        row1_def row2_def row3_def row5_def)
  have s: "value_counts (map State [row1, row2, row3, row5]) = [(''WA'', 2), (''CA'', 2)]"
    by (simp add: value_counts_def sort_values_desc_def value_count_def dropna_def
        row1_def row2_def row3_def row5_def)
  have "sum_left [250, 300, 270] = Finite (of_int (sum_list [250, 300, 270]))"
    by (rule sum_left_exact) simp_all
  then have a: "avg_range sum_left [row1, row2, row3, row5]
                  = Finite (4808530852140373 / 17592186044416)"
    by (simp add: avg_range_def getitem_mask_def gt0_def mean_def to_float_2_3_4
        round64_820_3 row1_def row2_def row3_def row5_def)
  have p: "pct 3 4 = Finite 75" "pct 4 4 = Finite 100" "pct 2 4 = Finite 50"
    by (simp_all add: pct_def to_float_2_3_4 round64_3_4 round64_1_2 round64_75_50
        round64_small_ints)
  have four: "Suc (Suc (Suc (Suc 0))) = 4"
    by simp
  have "insights sum_left [row1, row2, row3, row5]
       = Inr \<lparr>market_leader = (''TESLA'', 3, Finite 75),
               average_range = Some (Finite (4808530852140373 / 17592186044416)),
               vehicle_preference = (''BEV'', Finite 100),
               geographic_leader = (''WA'', 2, Finite 50)\<rparr>"
    unfolding insights_def m t s by (simp add: index0_def a p isna_def four)
  then show ?thesis
    using m by (simp add: sample_filtered make_counts_def head_def)
qed

end
